theory Spec2Isabelle
  imports Main
begin

section \<open>Scoring library\<close>

text \<open>
  A frame is an object with one field, the list of pin counts rolled in it.  Pin counts
  are JavaScript numbers; the engine only ever stores integers, so they are modelled as
  unbounded integers.
\<close>

record Frame =
  rolls :: "int list"

text \<open>
  The source reads the flattened roll array as \<^verbatim>\<open>rolls[i] ?? 0\<close>: an index past the
  end yields \<^verbatim>\<open>undefined\<close>, which the nullish operator replaces by 0.
\<close>

definition rollAt :: "int list \<Rightarrow> nat \<Rightarrow> int" where
  "rollAt rs i = (if i < length rs then rs ! i else 0)"

text \<open>
  First loop of \<^verbatim>\<open>computeBowlingScore\<close>: for i from 0 below min(frames.length, 10),
  push every roll of frame i onto the flat array.
\<close>

function flattenLoop :: "Frame list \<Rightarrow> nat \<Rightarrow> int list \<Rightarrow> int list" where
  "flattenLoop frames i acc =
     (if i < min (length frames) 10
      then flattenLoop frames (Suc i) (acc @ rolls (frames ! i))
      else acc)"
  by pat_completeness auto
termination
  by (relation "measure (\<lambda>(frames, i, acc). min (length frames) 10 - i)") auto

record Score =
  total :: int
  perFrame :: "int list"

text \<open>
  Second loop: ten logical frames walked with a cursor \<^verbatim>\<open>rollIndex\<close> into the flat
  array; the three branches are strike, spare and open, in the order of the source.
\<close>

function scoreLoop :: "int list \<Rightarrow> nat \<Rightarrow> nat \<Rightarrow> int \<Rightarrow> int list \<Rightarrow> Score" where
  "scoreLoop rs frame rollIndex tot pf =
     (if frame < 10 then
        (let first = rollAt rs rollIndex in
         if first = 10 then
           (let bonus1 = rollAt rs (rollIndex + 1);
                bonus2 = rollAt rs (rollIndex + 2);
                s = 10 + bonus1 + bonus2
            in scoreLoop rs (Suc frame) (rollIndex + 1) (tot + s) (pf @ [s]))
         else
           (let second = rollAt rs (rollIndex + 1);
                framePins = first + second
            in if framePins = 10 then
                 (let bonus = rollAt rs (rollIndex + 2);
                      s = 10 + bonus
                  in scoreLoop rs (Suc frame) (rollIndex + 2) (tot + s) (pf @ [s]))
               else
                 (let s = framePins
                  in scoreLoop rs (Suc frame) (rollIndex + 2) (tot + s) (pf @ [s]))))
      else \<lparr>total = tot, perFrame = pf\<rparr>)"
  by pat_completeness auto
termination
  by (relation "measure (\<lambda>(rs, frame, rollIndex, tot, pf). 10 - frame)") auto

declare flattenLoop.simps [simp del]
declare scoreLoop.simps [simp del]

definition computeBowlingScore :: "Frame list \<Rightarrow> Score" where
  "computeBowlingScore frames = scoreLoop (flattenLoop frames 0 []) 0 0 0 []"

definition makeInitialFrames :: "nat \<Rightarrow> Frame list list" where
  "makeInitialFrames playerCount = replicate playerCount (replicate 10 \<lparr>rolls = []\<rparr>)"

text \<open>
  \<^verbatim>\<open>isFrameComplete\<close>: in both branches \<^verbatim>\<open>rolls[0]\<close> and \<^verbatim>\<open>rolls[1]\<close> are read only
  after the length checks that make them defined.
\<close>

definition isFrameComplete :: "nat \<Rightarrow> Frame \<Rightarrow> bool" where
  "isFrameComplete frameIndex frame =
     (let rs = rolls frame in
      if frameIndex < 9 then
        (if length rs = 0 then False
         else if rs ! 0 = 10 then True
         else length rs \<ge> 2)
      else
        (if length rs < 2 then False
         else
           (let first = rollAt rs 0; second = rollAt rs 1 in
            if first = 10 \<or> first + second = 10 then length rs \<ge> 3
            else length rs \<ge> 2)))"

definition maxPinsThisRoll :: "nat \<Rightarrow> Frame \<Rightarrow> int" where
  "maxPinsThisRoll frameIndex frame =
     (if frameIndex < 9 then
        (if length (rolls frame) = 0 then 10
         else max 0 (10 - rollAt (rolls frame) 0))
      else
        (let r = rolls frame in
         if length r = 0 then 10
         else if length r = 1 then (if r ! 0 = 10 then 10 else 10 - r ! 0)
         else if length r = 2 then
           (let first = rollAt r 0; second = rollAt r 1 in
            if first = 10 then (if second = 10 then 10 else 10 - second)
            else if first + second = 10 then 10
            else 0)
         else 0))"

section \<open>Turn controller (the App component's state and event handler)\<close>

text \<open>
  A player has a random identifier and a display name; only the number of players
  matters to the controller.
\<close>

record Player =
  id' :: string
  name :: string

text \<open>The React state cells of the component, gathered in one record.\<close>

record AppState =
  players :: "Player list"
  framesByPlayer :: "Frame list list"
  playerIndex :: nat
  frameIndex :: nat
  resetToken :: int
  keepStandingPins :: bool
  rolling :: bool

text \<open>
  The lane reports either a throw (whose speed and curve the controller never reads) or
  the end of a roll with the pins knocked down and the pins remaining.
\<close>

datatype LaneEvent = Throw | RollEnd int int

text \<open>
  The only failure the handler can raise: \<^verbatim>\<open>next[playerIndex]![frameIndex]!\<close> is
  \<^verbatim>\<open>undefined\<close> when an index is out of range, and reading \<^verbatim>\<open>.rolls\<close> of it throws.
\<close>

datatype error = TypeError

definition initialState :: "string \<Rightarrow> string \<Rightarrow> AppState" where
  "initialState uid1 uid2 =
     \<lparr>players = [\<lparr>id' = uid1, name = ''Sam''\<rparr>, \<lparr>id' = uid2, name = ''Friend''\<rparr>],
      framesByPlayer = makeInitialFrames 2,
      playerIndex = 0,
      frameIndex = 0,
      resetToken = 1,
      keepStandingPins = False,
      rolling = False\<rparr>"

text \<open>\<^verbatim>\<open>framesByPlayer[playerIndex] ?? []\<close> and \<^verbatim>\<open>curFrames[frameIndex] ?? { rolls: [] }\<close>.\<close>

definition curFrames :: "AppState \<Rightarrow> Frame list" where
  "curFrames s =
     (if playerIndex s < length (framesByPlayer s) then framesByPlayer s ! playerIndex s
      else [])"

definition curFrame :: "AppState \<Rightarrow> Frame" where
  "curFrame s =
     (if frameIndex s < length (curFrames s) then curFrames s ! frameIndex s
      else \<lparr>rolls = []\<rparr>)"

definition maxPins :: "AppState \<Rightarrow> int" where
  "maxPins s = maxPinsThisRoll (frameIndex s) (curFrame s)"

text \<open>
  The updater passed to \<^verbatim>\<open>setFramesByPlayer\<close>: copy the store, push the roll onto the
  frame of the active player and active frame.
\<close>

definition pushRoll :: "Frame list list \<Rightarrow> nat \<Rightarrow> nat \<Rightarrow> int \<Rightarrow> error + Frame list list" where
  "pushRoll prev p f knocked =
     (if p < length prev \<and> f < length (prev ! p) then
        (let pf = prev ! p ! f
         in Inr (prev[p := (prev ! p)[f := pf\<lparr>rolls := rolls pf @ [knocked]\<rparr>]]))
      else Inl TypeError)"

text \<open>
  \<^verbatim>\<open>onLaneEvent\<close>.  The component creates the handler anew in every render, and the
  handler closes over the values of that render: \<^verbatim>\<open>maxPins\<close>, \<^verbatim>\<open>curFrame\<close>,
  \<^verbatim>\<open>playerIndex\<close>, \<^verbatim>\<open>frameIndex\<close> and \<^verbatim>\<open>players\<close>.  Its state updaters, in
  contrast, are functions (\<^verbatim>\<open>prev => ...\<close>, \<^verbatim>\<open>i => i + 1\<close>, \<^verbatim>\<open>f => Math.min(9, f + 1)\<close>,
  \<^verbatim>\<open>x => x + 1\<close>) applied to the state at the time the event is handled.  The model
  therefore takes two states: \<open>render\<close>, the state of the render that created the
  handler, and \<open>s\<close>, the state the updaters run on.  The last-player test compares
  \<^verbatim>\<open>playerIndex\<close> with \<^verbatim>\<open>players.length - 1\<close>, which is -1 for an empty roster,
  hence the integers.
\<close>

definition onLaneEvent :: "AppState \<Rightarrow> AppState \<Rightarrow> LaneEvent \<Rightarrow> error + AppState" where
  "onLaneEvent render s e =
     (case e of
        Throw \<Rightarrow> Inr (s\<lparr>rolling := True\<rparr>)
      | RollEnd reported remaining \<Rightarrow>
          (let knocked = max 0 (min (maxPins render) reported) in
           case pushRoll (framesByPlayer s) (playerIndex render) (frameIndex render) knocked of
             Inl err \<Rightarrow> Inl err
           | Inr next \<Rightarrow>
               (let s1 = s\<lparr>rolling := False, framesByPlayer := next\<rparr>;
                    newFrame = (curFrame render)
                      \<lparr>rolls := rolls (curFrame render) @ [knocked]\<rparr>;
                    done = isFrameComplete (frameIndex render) newFrame
                in if \<not> done then
                     Inr (s1\<lparr>keepStandingPins := True, resetToken := resetToken s + 1\<rparr>)
                   else
                     (let isLastPlayer =
                            (int (playerIndex render) = int (length (players render)) - 1);
                          s2 = (if \<not> isLastPlayer
                                then s1\<lparr>playerIndex := playerIndex s + 1\<rparr>
                                else s1\<lparr>playerIndex := 0,
                                        frameIndex := min 9 (frameIndex s + 1)\<rparr>)
                      in Inr (s2\<lparr>keepStandingPins := False,
                                  resetToken := resetToken s + 1\<rparr>)))))"

text \<open>
  How the lane component calls the handler.  \<^verbatim>\<open>LaneCanvas\<close> starts its animation loop
  once, in the effect that runs on mount (empty dependency list), and the loop
  re-schedules the \<^verbatim>\<open>step\<close> function of that first render.  \<^verbatim>\<open>step\<close> reports the end
  of a roll through \<^verbatim>\<open>props.onEvent\<close> of its own render, so every \<^verbatim>\<open>roll_end\<close> event
  reaches the handler that the App created in its first render, whatever the state has
  become since.  A \<^verbatim>\<open>throw\<close> event is reported from the pointer handlers of a later
  render, but the handler's answer to it does not depend on the render.  Feeding a list
  of lane events to the program is therefore feeding them to the handler of the render
  \<open>first\<close>, each on the state left by the event before, stopping at the first failure.
\<close>

fun runEvents :: "AppState \<Rightarrow> AppState \<Rightarrow> LaneEvent list \<Rightarrow> error + AppState" where
  "runEvents first s [] = Inr s"
| "runEvents first s (e # es) =
     (case onLaneEvent first s e of Inl err \<Rightarrow> Inl err | Inr s' \<Rightarrow> runEvents first s' es)"

text \<open>
  \<^verbatim>\<open>addPlayer\<close>: the answer of the prompt after trimming (\<open>None\<close> when the dialog is
  cancelled) and the fresh identifier are parameters.
\<close>

definition addPlayer :: "AppState \<Rightarrow> string option \<Rightarrow> string \<Rightarrow> AppState" where
  "addPlayer s answer uid =
     (case answer of
        None \<Rightarrow> s
      | Some nm \<Rightarrow>
          if nm = [] then s
          else
            (let next = players s @ [\<lparr>id' = uid, name = nm\<rparr>]
             in s\<lparr>players := next,
                  framesByPlayer := makeInitialFrames (length next),
                  playerIndex := 0,
                  frameIndex := 0,
                  keepStandingPins := False,
                  rolling := False,
                  resetToken := resetToken s + 1\<rparr>))"

definition resetGame :: "AppState \<Rightarrow> bool \<Rightarrow> AppState" where
  "resetGame s confirmed =
     (if \<not> confirmed then s
      else s\<lparr>framesByPlayer := makeInitialFrames (length (players s)),
             playerIndex := 0,
             frameIndex := 0,
             keepStandingPins := False,
             rolling := False,
             resetToken := resetToken s + 1\<rparr>)"

section \<open>Predicates used to state the properties\<close>

text \<open>
  A roll list is legal for a frame when every roll lies between 0 and the value of
  \<^verbatim>\<open>maxPinsThisRoll\<close> on the rolls before it, which is what the clamp of the event
  handler produces.
\<close>

fun legalFrom :: "nat \<Rightarrow> int list \<Rightarrow> int list \<Rightarrow> bool" where
  "legalFrom fi pre [] = True"
| "legalFrom fi pre (r # rs) =
     (0 \<le> r \<and> r \<le> maxPinsThisRoll fi \<lparr>rolls = pre\<rparr> \<and> legalFrom fi (pre @ [r]) rs)"

definition legalRolls :: "nat \<Rightarrow> Frame \<Rightarrow> bool" where
  "legalRolls fi f = legalFrom fi [] (rolls f)"

fun legalRow :: "nat \<Rightarrow> Frame list \<Rightarrow> bool" where
  "legalRow i [] = True"
| "legalRow i (f # fs) = (legalRolls i f \<and> legalRow (Suc i) fs)"

text \<open>
  A frame is closed at an index when it is complete and was not complete before its last
  roll: it received no roll after it became complete.
\<close>

definition closedAt :: "nat \<Rightarrow> Frame \<Rightarrow> bool" where
  "closedAt i f =
     (isFrameComplete i f \<and> \<not> isFrameComplete i (f\<lparr>rolls := butlast (rolls f)\<rparr>))"

fun closedFrames :: "nat \<Rightarrow> Frame list \<Rightarrow> bool" where
  "closedFrames i [] = True"
| "closedFrames i (f # fs) = (closedAt i f \<and> closedFrames (Suc i) fs)"

text \<open>
  A state in which the handler's indices are in range and every stored roll is legal:
  what the frame store looks like while rolls are recorded by the rules.
\<close>

definition wfState :: "AppState \<Rightarrow> bool" where
  "wfState s =
     (players s \<noteq> [] \<and>
      length (framesByPlayer s) = length (players s) \<and>
      list_all (\<lambda>row. length row = 10 \<and> legalRow 0 row) (framesByPlayer s) \<and>
      playerIndex s < length (players s) \<and>
      frameIndex s < 10)"

section \<open>One iteration of the scoring walk\<close>

text \<open>
  The score pushed and the new cursor of one iteration of the scoring loop, as functions
  of the flat array and the cursor; \<open>scoreLoop_step\<close> below shows that the loop does
  exactly this.
\<close>

definition frameScore :: "int list \<Rightarrow> nat \<Rightarrow> int" where
  "frameScore rs i =
     (if rollAt rs i = 10 then 10 + rollAt rs (i + 1) + rollAt rs (i + 2)
      else if rollAt rs i + rollAt rs (i + 1) = 10 then 10 + rollAt rs (i + 2)
      else rollAt rs i + rollAt rs (i + 1))"

definition frameAdvance :: "int list \<Rightarrow> nat \<Rightarrow> nat" where
  "frameAdvance rs i = (if rollAt rs i = 10 then i + 1 else i + 2)"

section \<open>Reference games\<close>

definition strikeFrame :: Frame where
  "strikeFrame = \<lparr>rolls = [10]\<rparr>"

definition allStrikes :: "Frame list" where
  "allStrikes = replicate 9 strikeFrame @ [\<lparr>rolls = [10, 10, 10]\<rparr>]"

text \<open>
  The state of the first render with concrete identifiers, the roster of three reached
  from it by adding one player, and a frame without rolls.
\<close>

definition firstRender :: AppState where
  "firstRender = initialState ''a'' ''b''"

definition threePlayers :: AppState where
  "threePlayers = addPlayer firstRender (Some ''Ann'') ''c''"


section \<open>Evaluation of the loops\<close>

lemma flattenLoop_concat:
  "flattenLoop frames i acc = acc @ concat (map rolls (drop i (take 10 frames)))"
proof (induction frames i acc rule: flattenLoop.induct)
  case (1 frames i acc)
  show ?case
  proof (cases "i < min (length frames) 10")
    case True
    then have "i < length (take 10 frames)"
      by simp
    then have "drop i (take 10 frames) = take 10 frames ! i # drop (Suc i) (take 10 frames)"
      by (rule Cons_nth_drop_Suc [symmetric])
    with True have d: "drop i (take 10 frames) = frames ! i # drop (Suc i) (take 10 frames)"
      by simp
    from True 1 show ?thesis
      by (subst flattenLoop.simps) (simp add: d)
  next
    case False
    then have "drop i (take 10 frames) = []"
      by auto
    moreover from False have "flattenLoop frames i acc = acc"
      by (subst flattenLoop.simps) auto
    ultimately show ?thesis
      by simp
  qed
qed

lemma flatten_eq: "flattenLoop frames 0 [] = concat (map rolls (take 10 frames))"
  by (simp add: flattenLoop_concat)

section \<open>Lemmas about the predicates and the scoring walk\<close>

lemma legalFrom_snoc:
  "legalFrom fi pre (rs @ [r]) =
     (legalFrom fi pre rs \<and> 0 \<le> r \<and> r \<le> maxPinsThisRoll fi \<lparr>rolls = pre @ rs\<rparr>)"
  by (induction rs arbitrary: pre) auto

lemma frame_eta: "\<lparr>rolls = rolls f\<rparr> = (f::Frame)"
  by (cases f) simp

lemma legalRolls_snoc:
  "legalRolls fi (f\<lparr>rolls := rolls f @ [r]\<rparr>) =
     (legalRolls fi f \<and> 0 \<le> r \<and> r \<le> maxPinsThisRoll fi f)"
  by (simp add: legalRolls_def legalFrom_snoc frame_eta)

lemma maxPins_empty: "maxPinsThisRoll fi \<lparr>rolls = []\<rparr> = 10"
  by (simp add: maxPinsThisRoll_def)

lemma legal_first:
  assumes "legalRolls fi f" "rolls f = a # rest"
  shows "0 \<le> a \<and> a \<le> 10"
  using assms by (simp add: legalRolls_def maxPins_empty)

lemma legal_second_tenth:
  assumes "legalRolls 9 f" "rolls f = a # b # rest"
  shows "0 \<le> b \<and> b \<le> (if a = 10 then 10 else 10 - a)"
  using assms by (auto simp add: legalRolls_def maxPinsThisRoll_def split: if_splits)

lemma maxPins_bounds:
  assumes "legalRolls fi f"
  shows "0 \<le> maxPinsThisRoll fi f \<and> maxPinsThisRoll fi f \<le> 10"
proof (cases "rolls f")
  case Nil
  then show ?thesis by (simp add: maxPinsThisRoll_def)
next
  case (Cons a rest)
  with assms have a: "0 \<le> a" "a \<le> 10"
    by (simp_all add: legalRolls_def maxPins_empty)
  show ?thesis
  proof (cases "fi < 9")
    case True
    with Cons a show ?thesis
      by (simp add: maxPinsThisRoll_def rollAt_def)
  next
    case False
    show ?thesis
    proof (cases rest)
      case Nil
      with Cons a False show ?thesis
        by (simp add: maxPinsThisRoll_def)
    next
      case (Cons b rest')
      with \<open>rolls f = a # rest\<close> assms False have "0 \<le> b" "b \<le> 10"
        using a by (auto simp add: legalRolls_def maxPinsThisRoll_def split: if_splits)
      with Cons \<open>rolls f = a # rest\<close> a False show ?thesis
        by (simp add: maxPinsThisRoll_def rollAt_def Let_def)
    qed
  qed
qed

lemma strike_closes:
  "fi < 9 \<Longrightarrow> rolls f = 10 # rest \<Longrightarrow>
     isFrameComplete fi f \<and> maxPinsThisRoll fi f = 0"
  by (simp add: isFrameComplete_def maxPinsThisRoll_def rollAt_def)

lemma scoreLoop_step:
  "scoreLoop rs frame i t pf =
     (if frame < 10
      then scoreLoop rs (Suc frame) (frameAdvance rs i) (t + frameScore rs i)
             (pf @ [frameScore rs i])
      else \<lparr>total = t, perFrame = pf\<rparr>)"
  by (subst scoreLoop.simps) (simp add: frameScore_def frameAdvance_def Let_def)

lemma scoreLoop_length:
  "length (perFrame (scoreLoop rs frame i t pf)) = length pf + (10 - frame)"
proof (induction "10 - frame" arbitrary: frame i t pf)
  case 0
  then show ?case by (subst scoreLoop_step) simp
next
  case (Suc n)
  then have "frame < 10" "n = 10 - Suc frame" by simp_all
  with Suc.hyps(1) [of "Suc frame"] show ?case
    by (subst scoreLoop_step) simp
qed

lemma scoreLoop_total:
  "total (scoreLoop rs frame i t pf) - sum_list (perFrame (scoreLoop rs frame i t pf)) =
     t - sum_list pf"
proof (induction "10 - frame" arbitrary: frame i t pf)
  case 0
  then show ?case by (subst (1 2) scoreLoop_step) simp
next
  case (Suc n)
  then have "frame < 10" "n = 10 - Suc frame" by simp_all
  with Suc.hyps(1) [of "Suc frame" "frameAdvance rs i" "t + frameScore rs i" "pf @ [frameScore rs i]"]
  show ?case
    by (subst (1 2) scoreLoop_step) simp
qed

lemma scoreLoop_prefix:
  "n < length pf \<Longrightarrow> perFrame (scoreLoop rs frame i t pf) ! n = pf ! n"
proof (induction "10 - frame" arbitrary: frame i t pf)
  case 0
  then show ?case by (subst scoreLoop_step) simp
next
  case (Suc m)
  then have "frame < 10" "m = 10 - Suc frame" by simp_all
  with Suc.hyps(1) [of "Suc frame" "pf @ [frameScore rs i]"] Suc.prems show ?case
    by (subst scoreLoop_step) (simp add: nth_append)
qed

lemma scoreLoop_entry:
  assumes "frame < 10"
  shows "perFrame (scoreLoop rs frame i t pf) ! length pf = frameScore rs i"
proof -
  have "perFrame (scoreLoop rs frame i t pf) ! length pf =
        perFrame (scoreLoop rs (Suc frame) (frameAdvance rs i) (t + frameScore rs i)
                    (pf @ [frameScore rs i])) ! length pf"
    using assms by (subst scoreLoop_step) simp
  also have "\<dots> = (pf @ [frameScore rs i]) ! length pf"
    by (rule scoreLoop_prefix) simp
  finally show ?thesis by simp
qed

lemma closedAt_shape:
  assumes "fi < 9"
  shows "closedAt fi f = (rolls f = [10] \<or> (\<exists>a b. rolls f = [a, b] \<and> a \<noteq> 10))"
proof (cases "rolls f")
  case Nil
  then show ?thesis by (simp add: closedAt_def isFrameComplete_def)
next
  case (Cons a rest)
  note fa = this
  show ?thesis
  proof (cases rest)
    case Nil
    with fa assms show ?thesis by (auto simp add: closedAt_def isFrameComplete_def)
  next
    case (Cons b rest')
    with fa assms show ?thesis
      by (cases rest') (auto simp add: closedAt_def isFrameComplete_def)
  qed
qed

lemma rollAt_append_right: "rollAt (xs @ ys) (length xs + n) = rollAt ys n"
  by (simp add: rollAt_def nth_append)

lemma rollAt_append_right0: "rollAt (xs @ ys) (length xs) = rollAt ys 0"
  using rollAt_append_right [of xs ys 0] by simp

lemma closed_advance:
  assumes "fi < 9" "closedAt fi f"
  shows "frameAdvance (xs @ rolls f @ ys) (length xs) = length (xs @ rolls f)"
  using assms
  by (auto simp add: closedAt_shape frameAdvance_def rollAt_append_right0 rollAt_def)

text \<open>
  Alignment: after walking closed frames the cursor stands at the start of the next
  frame.
\<close>

lemma scoreLoop_align:
  assumes "closedFrames frame pre" "frame + length pre \<le> 9"
  shows "\<exists>t' pf'. length pf' = length pf + length pre \<and>
           scoreLoop (xs @ concat (map rolls pre) @ ys) frame (length xs) t pf =
           scoreLoop (xs @ concat (map rolls pre) @ ys) (frame + length pre)
             (length xs + length (concat (map rolls pre))) t' pf'"
  using assms
proof (induction pre arbitrary: frame xs t pf)
  case Nil
  then show ?case by auto
next
  case (Cons f fs)
  let ?R = "xs @ concat (map rolls (f # fs)) @ ys"
  from Cons.prems have fr: "frame < 9" "closedAt frame f" "closedFrames (Suc frame) fs"
    "Suc frame + length fs \<le> 9"
    by simp_all
  have R: "?R = (xs @ rolls f) @ concat (map rolls fs) @ ys"
    by simp
  have adv: "frameAdvance ?R (length xs) = length (xs @ rolls f)"
    using closed_advance [OF fr(1,2), of xs "concat (map rolls fs) @ ys"] by simp
  from Cons.IH [OF fr(3,4), of "pf @ [frameScore ?R (length xs)]" "xs @ rolls f"
      "t + frameScore ?R (length xs)"]
  obtain t' pf' where
    len: "length pf' = length (pf @ [frameScore ?R (length xs)]) + length fs" and
    eq: "scoreLoop ((xs @ rolls f) @ concat (map rolls fs) @ ys) (Suc frame)
           (length (xs @ rolls f)) (t + frameScore ?R (length xs))
           (pf @ [frameScore ?R (length xs)]) =
         scoreLoop ((xs @ rolls f) @ concat (map rolls fs) @ ys) (Suc frame + length fs)
           (length (xs @ rolls f) + length (concat (map rolls fs))) t' pf'"
    by blast
  have "scoreLoop ?R frame (length xs) t pf =
        scoreLoop ?R (Suc frame) (length (xs @ rolls f)) (t + frameScore ?R (length xs))
          (pf @ [frameScore ?R (length xs)])"
    using fr(1) adv by (subst scoreLoop_step) simp
  also have "\<dots> = scoreLoop ?R (Suc frame + length fs)
           (length (xs @ rolls f) + length (concat (map rolls fs))) t' pf'"
    using eq unfolding R .
  finally have "scoreLoop ?R frame (length xs) t pf =
      scoreLoop ?R (frame + length (f # fs))
        (length xs + length (concat (map rolls (f # fs)))) t' pf'"
    by (simp add: add.assoc)
  moreover from len have "length pf' = length pf + length (f # fs)"
    by simp
  ultimately show ?case by blast
qed

text \<open>The slot of the frame that follows a run of closed frames.\<close>

lemma score_after_closed:
  assumes "closedFrames 0 pre" "length pre \<le> 9"
  shows "perFrame (scoreLoop (concat (map rolls pre) @ ys) 0 0 0 []) ! length pre =
           frameScore (concat (map rolls pre) @ ys) (length (concat (map rolls pre)))"
proof -
  from scoreLoop_align [of 0 pre "[]" "[]" ys 0] assms
  obtain t' pf' where len: "length pf' = length pre" and
    eq: "scoreLoop (concat (map rolls pre) @ ys) 0 0 0 [] =
         scoreLoop (concat (map rolls pre) @ ys) (length pre)
           (length (concat (map rolls pre))) t' pf'"
    by auto
  from assms(2) have "length pre < 10" by simp
  from scoreLoop_entry [OF this, of "concat (map rolls pre) @ ys"
      "length (concat (map rolls pre))" t' pf'] len eq
  show ?thesis by simp
qed

lemma compute_after_closed:
  assumes "closedFrames 0 pre" "length pre \<le> 9"
  shows "perFrame (computeBowlingScore (pre @ f # rest)) ! length pre =
           frameScore (concat (map rolls pre) @ rolls f @ concat (map rolls (take (9 - length pre) rest)))
             (length (concat (map rolls pre)))"
proof -
  from assms(2) have "take 10 (pre @ f # rest) = pre @ f # take (9 - length pre) rest"
    by (simp add: Suc_diff_le numeral_eq_Suc)
  then have "flattenLoop (pre @ f # rest) 0 [] =
      concat (map rolls pre) @ rolls f @ concat (map rolls (take (9 - length pre) rest))"
    by (simp add: flatten_eq)
  with score_after_closed [OF assms] show ?thesis
    by (simp add: computeBowlingScore_def)
qed

lemma rollAt_Cons0: "rollAt (x # xs) 0 = x"
  by (simp add: rollAt_def)

lemma rollAt_ConsSuc: "rollAt (x # xs) (Suc n) = rollAt xs n"
  by (simp add: rollAt_def)


lemma frameScore_at:
  "frameScore (xs @ ys) (length xs) =
     (if rollAt ys 0 = 10 then 10 + rollAt ys 1 + rollAt ys 2
      else if rollAt ys 0 + rollAt ys 1 = 10 then 10 + rollAt ys 2
      else rollAt ys 0 + rollAt ys 1)"
  using rollAt_append_right [of xs ys 0] rollAt_append_right [of xs ys 1]
    rollAt_append_right [of xs ys 2]
  by (simp add: frameScore_def)

lemma compute_total_sum:
  "total (computeBowlingScore frames) = sum_list (perFrame (computeBowlingScore frames))"
  using scoreLoop_total [of "flattenLoop frames 0 []" 0 0 0 "[]"]
  by (simp add: computeBowlingScore_def)

lemma compute_length: "length (perFrame (computeBowlingScore frames)) = 10"
  by (simp add: computeBowlingScore_def scoreLoop_length)

lemma compute_take: "computeBowlingScore (take 10 frames) = computeBowlingScore frames"
  by (simp add: computeBowlingScore_def flatten_eq)

section \<open>Lemmas about the event handler\<close>


lemma throw_any_render: "onLaneEvent render s Throw = Inr (s\<lparr>rolling := True\<rparr>)"
  by (simp add: onLaneEvent_def)

lemma legalRow_nth: "legalRow i row \<Longrightarrow> j < length row \<Longrightarrow> legalRolls (i + j) (row ! j)"
proof (induction row arbitrary: i j)
  case Nil
  then show ?case by simp
next
  case (Cons f fs)
  show ?case
  proof (cases j)
    case 0
    with Cons.prems show ?thesis by simp
  next
    case (Suc j')
    with Cons.prems Cons.IH [of "Suc i" j'] show ?thesis by simp
  qed
qed

lemma legalRow_replicate: "legalRow i (replicate n \<lparr>rolls = []\<rparr>)"
  by (induction n arbitrary: i) (simp_all add: legalRolls_def)

lemma wf_initialState: "wfState (initialState uid1 uid2)"
  by (simp add: wfState_def initialState_def makeInitialFrames_def legalRow_replicate
      list_all_iff)

lemma wf_indices:
  assumes "wfState s"
  shows "playerIndex s < length (framesByPlayer s)"
    and "length (framesByPlayer s ! playerIndex s) = 10"
    and "frameIndex s < length (framesByPlayer s ! playerIndex s)"
    and "legalRow 0 (framesByPlayer s ! playerIndex s)"
proof -
  from assms show p: "playerIndex s < length (framesByPlayer s)"
    by (simp add: wfState_def)
  with assms have row: "length (framesByPlayer s ! playerIndex s) = 10 \<and>
      legalRow 0 (framesByPlayer s ! playerIndex s)"
    by (simp add: wfState_def list_all_length)
  then show "length (framesByPlayer s ! playerIndex s) = 10"
    and "legalRow 0 (framesByPlayer s ! playerIndex s)"
    by simp_all
  from row assms show "frameIndex s < length (framesByPlayer s ! playerIndex s)"
    by (simp add: wfState_def)
qed

lemma wf_curFrame:
  assumes "wfState s"
  shows "curFrame s = framesByPlayer s ! playerIndex s ! frameIndex s"
    and "legalRolls (frameIndex s) (curFrame s)"
proof -
  from wf_indices [OF assms]
  show c: "curFrame s = framesByPlayer s ! playerIndex s ! frameIndex s"
    by (simp add: curFrame_def curFrames_def)
  from wf_indices(3,4) [OF assms]
    legalRow_nth [of 0 "framesByPlayer s ! playerIndex s" "frameIndex s"]
  show "legalRolls (frameIndex s) (curFrame s)"
    by (simp add: c)
qed

lemma wf_maxPins:
  assumes "wfState s"
  shows "0 \<le> maxPins s \<and> maxPins s \<le> 10"
  using maxPins_bounds [OF wf_curFrame(2) [OF assms]] by (simp add: maxPins_def)

lemma pushRoll_wf:
  assumes "wfState s"
  shows "pushRoll (framesByPlayer s) (playerIndex s) (frameIndex s) k =
           Inr ((framesByPlayer s)[playerIndex s :=
                  (framesByPlayer s ! playerIndex s)[frameIndex s :=
                     (curFrame s)\<lparr>rolls := rolls (curFrame s) @ [k]\<rparr>]])"
  using wf_indices [OF assms] wf_curFrame(1) [OF assms]
  by (simp add: pushRoll_def Let_def)

subsection \<open>The handler of the render of the current state\<close>

text \<open>
  Were a roll result handled by the handler of the render that shows the current state
  (\<open>render = s\<close>), the handler would do what the component is written to do: it would
  not fail, it would record the report clamped to the legal maximum of the current
  frame, and it would pass the turn on.
\<close>

lemma current_render_total:
  assumes "wfState s"
  shows "\<exists>s'. onLaneEvent s s e = Inr s'"
  by (cases e) (simp_all add: onLaneEvent_def pushRoll_wf [OF assms] Let_def)

lemma current_render_stored:
  assumes "wfState s" "onLaneEvent s s (RollEnd k rem) = Inr s'"
  shows "framesByPlayer s' ! playerIndex s ! frameIndex s =
           (curFrame s)\<lparr>rolls := rolls (curFrame s) @
              [max 0 (min (maxPinsThisRoll (frameIndex s) (curFrame s)) k)]\<rparr>"
proof -
  from assms(2) have "framesByPlayer s' =
      (framesByPlayer s)[playerIndex s :=
         (framesByPlayer s ! playerIndex s)[frameIndex s :=
            (curFrame s)\<lparr>rolls := rolls (curFrame s) @ [max 0 (min (maxPins s) k)]\<rparr>]]"
    by (auto simp add: onLaneEvent_def pushRoll_wf [OF assms(1)] Let_def split: if_splits)
  with wf_indices [OF assms(1)] show ?thesis
    by (simp add: maxPins_def)
qed

lemma current_render_clamp:
  assumes "wfState s" "onLaneEvent s s (RollEnd k rem) = Inr s'"
  shows "0 \<le> last (rolls (framesByPlayer s' ! playerIndex s ! frameIndex s))"
    and "last (rolls (framesByPlayer s' ! playerIndex s ! frameIndex s))
           \<le> maxPinsThisRoll (frameIndex s) (curFrame s)"
    and "maxPinsThisRoll (frameIndex s) (curFrame s) < k \<Longrightarrow>
           last (rolls (framesByPlayer s' ! playerIndex s ! frameIndex s)) =
             maxPinsThisRoll (frameIndex s) (curFrame s)"
    and "k < 0 \<Longrightarrow> last (rolls (framesByPlayer s' ! playerIndex s ! frameIndex s)) = 0"
  using wf_maxPins [OF assms(1)]
  by (simp_all add: current_render_stored [OF assms] maxPins_def)

lemma current_render_turn:
  assumes "wfState s" "onLaneEvent s s (RollEnd k rem) = Inr s'"
  shows "if \<not> isFrameComplete (frameIndex s)
              (framesByPlayer s' ! playerIndex s ! frameIndex s)
         then playerIndex s' = playerIndex s \<and> frameIndex s' = frameIndex s \<and>
              keepStandingPins s'
         else if playerIndex s + 1 \<noteq> length (players s)
         then playerIndex s' = playerIndex s + 1 \<and> frameIndex s' = frameIndex s \<and>
              \<not> keepStandingPins s'
         else playerIndex s' = 0 \<and> frameIndex s' = min 9 (frameIndex s + 1) \<and>
              \<not> keepStandingPins s'"
proof -
  from assms(1) have "playerIndex s < length (players s)"
    by (simp add: wfState_def)
  then have lastp: "(int (playerIndex s) \<noteq> int (length (players s)) - 1) =
      (playerIndex s + 1 \<noteq> length (players s))"
    by auto
  from assms(2) have "if \<not> isFrameComplete (frameIndex s)
              ((curFrame s)\<lparr>rolls := rolls (curFrame s) @ [max 0 (min (maxPins s) k)]\<rparr>)
         then playerIndex s' = playerIndex s \<and> frameIndex s' = frameIndex s \<and>
              keepStandingPins s'
         else if int (playerIndex s) \<noteq> int (length (players s)) - 1
         then playerIndex s' = playerIndex s + 1 \<and> frameIndex s' = frameIndex s \<and>
              \<not> keepStandingPins s'
         else playerIndex s' = 0 \<and> frameIndex s' = min 9 (frameIndex s + 1) \<and>
              \<not> keepStandingPins s'"
    by (auto simp add: onLaneEvent_def Let_def split: if_splits sum.splits)
  then show ?thesis
    by (simp only: current_render_stored [OF assms] lastp maxPins_def)
qed

subsection \<open>The handler of the first render\<close>

text \<open>
  The first render shows the initial state: player 0, frame 0, an empty current frame
  and two players.  Its handler therefore clamps every report to 10, pushes it onto
  frame 0 of player 0 of the current store, takes the frame to be complete exactly when
  the clamped report is 10, and then adds one to the player index; it never
  touches the frame index.
\<close>

lemma first_render_captures:
  "playerIndex (initialState uid1 uid2) = 0"
  "frameIndex (initialState uid1 uid2) = 0"
  "curFrame (initialState uid1 uid2) = \<lparr>rolls = []\<rparr>"
  "maxPins (initialState uid1 uid2) = 10"
  "length (players (initialState uid1 uid2)) = 2"
  by (simp_all add: initialState_def maxPins_def curFrame_def curFrames_def
      makeInitialFrames_def maxPinsThisRoll_def numeral_eq_Suc)

lemma first_render_roll_end:
  assumes "framesByPlayer s = row # others" "row = f # fs"
  shows "onLaneEvent (initialState uid1 uid2) s (RollEnd k rem) =
           Inr (s\<lparr>rolling := False,
                  framesByPlayer := (f\<lparr>rolls := rolls f @ [max 0 (min 10 k)]\<rparr> # fs) # others,
                  playerIndex := (if max 0 (min 10 k) = 10 then playerIndex s + 1
                                  else playerIndex s),
                  keepStandingPins := (max 0 (min 10 k) \<noteq> 10),
                  resetToken := resetToken s + 1\<rparr>)"
  using assms
  by (simp add: onLaneEvent_def first_render_captures pushRoll_def Let_def
      isFrameComplete_def)

lemma threePlayers_eval:
  "threePlayers =
     \<lparr>players = [\<lparr>id' = ''a'', name = ''Sam''\<rparr>, \<lparr>id' = ''b'', name = ''Friend''\<rparr>,
                 \<lparr>id' = ''c'', name = ''Ann''\<rparr>],
      framesByPlayer = replicate 3 (replicate 10 \<lparr>rolls = []\<rparr>),
      playerIndex = 0, frameIndex = 0, resetToken = 2,
      keepStandingPins = False, rolling = False\<rparr>"
  by (simp add: threePlayers_def firstRender_def addPlayer_def initialState_def
      makeInitialFrames_def numeral_3_eq_3)

lemma firstRender_eval:
  "firstRender =
     \<lparr>players = [\<lparr>id' = ''a'', name = ''Sam''\<rparr>, \<lparr>id' = ''b'', name = ''Friend''\<rparr>],
      framesByPlayer = replicate 2 (replicate 10 \<lparr>rolls = []\<rparr>),
      playerIndex = 0, frameIndex = 0, resetToken = 1,
      keepStandingPins = False, rolling = False\<rparr>"
  by (simp add: firstRender_def initialState_def makeInitialFrames_def)

text \<open>
  After the rolls 3 and 4 the program shows player 0 in frame 0 with the complete frame
  3, 4 as current frame, and the legal pin count computed for that render is 7.
\<close>

lemma program_shows_closed_frame:
  "\<exists>s. runEvents firstRender firstRender [RollEnd 3 7, RollEnd 4 3] = Inr s \<and>
       playerIndex s = 0 \<and> frameIndex s = 0 \<and> curFrame s = \<lparr>rolls = [3, 4]\<rparr> \<and>
       isFrameComplete (frameIndex s) (curFrame s) \<and> maxPins s = 7"
  by (simp add: firstRender_eval onLaneEvent_def Let_def pushRoll_def curFrame_def
      curFrames_def maxPins_def maxPinsThisRoll_def isFrameComplete_def rollAt_def
      numeral_eq_Suc)


section \<open>Claims\<close>

text \<open>
  C1.  The all-strikes game (a strike in each of frames 0-8 and rolls 10, 10, 10 in
  frame 9, twelve rolls of 10 in all) scores a total of 300, and each of the ten
  per-frame entries is 30.
\<close>

theorem C1_all_strikes:
  "total (computeBowlingScore allStrikes) = 300 \<and>
   perFrame (computeBowlingScore allStrikes) = replicate 10 30"
  by (simp add: computeBowlingScore_def flatten_eq allStrikes_def strikeFrame_def
      rollAt_def scoreLoop.simps numeral_eq_Suc)






text \<open>
  C4.  In frame 9, for a legal roll list (every roll between 0 and the legal maximum
  after the rolls before it): the frame is incomplete with fewer than 2 rolls; when the
  first two rolls sum to 10 or more it is complete exactly when it holds 3 or more
  rolls; otherwise it is complete exactly when it holds 2 or more rolls.
\<close>

theorem C4_tenth_frame_completion:
  assumes "legalRolls 9 f"
  shows "isFrameComplete 9 f =
           (if length (rolls f) < 2 then False
            else if rolls f ! 0 + rolls f ! 1 \<ge> 10 then length (rolls f) \<ge> 3
            else length (rolls f) \<ge> 2)"
proof (cases "rolls f")
  case Nil
  then show ?thesis by (simp add: isFrameComplete_def)
next
  case (Cons a rest)
  note fa = this
  show ?thesis
  proof (cases rest)
    case Nil
    with fa show ?thesis by (simp add: isFrameComplete_def)
  next
    case (Cons b rest')
    with fa assms have "0 \<le> a" "a \<le> 10" "0 \<le> b" "b \<le> (if a = 10 then 10 else 10 - a)"
      by (auto simp add: legalRolls_def maxPinsThisRoll_def split: if_splits)
    with fa Cons show ?thesis
      by (auto simp add: isFrameComplete_def rollAt_def Let_def split: if_splits)
  qed
qed

text \<open>The theorem of C4 at concrete frames.\<close>

theorem C4_witness:
  "legalRolls 9 \<lparr>rolls = [10, 7, 2]\<rparr> \<and> isFrameComplete 9 \<lparr>rolls = [10, 7, 2]\<rparr> \<and>
   legalRolls 9 \<lparr>rolls = [6, 4]\<rparr> \<and> \<not> isFrameComplete 9 \<lparr>rolls = [6, 4]\<rparr> \<and>
   legalRolls 9 \<lparr>rolls = [6, 3]\<rparr> \<and> isFrameComplete 9 \<lparr>rolls = [6, 3]\<rparr>"
  using C4_tenth_frame_completion [of "\<lparr>rolls = [10, 7, 2]\<rparr>"]
    C4_tenth_frame_completion [of "\<lparr>rolls = [6, 4]\<rparr>"]
    C4_tenth_frame_completion [of "\<lparr>rolls = [6, 3]\<rparr>"]
  by (simp add: legalRolls_def maxPinsThisRoll_def rollAt_def)

text \<open>
  C5.  The claim is that completing a frame passes the turn to the next player and,
  after the last player, to player 0 in the next frame, so that three players go
  0, 1, 2, 0 before the frame index becomes 1.  The handler that receives every roll
  result is the one of the first render (player 0, frame 0, empty frame, two players):
  with three players, four single-roll strikes take the player index to 1, 2, 3 and 4
  while the frame index stays 0, and the rolls 0 and 4, which complete frame 0 of player
  0 in the store, leave player 0 active with the carry-over rack policy.
\<close>

theorem C5_stale_handler_no_rotation:
  "\<exists>s1 s2 s3 s4 t.
     runEvents firstRender threePlayers [RollEnd 10 0] = Inr s1 \<and>
     runEvents firstRender threePlayers [RollEnd 10 0, RollEnd 10 0] = Inr s2 \<and>
     runEvents firstRender threePlayers [RollEnd 10 0, RollEnd 10 0, RollEnd 10 0] = Inr s3 \<and>
     runEvents firstRender threePlayers
       [RollEnd 10 0, RollEnd 10 0, RollEnd 10 0, RollEnd 10 0] = Inr s4 \<and>
     (playerIndex s1, frameIndex s1) = (1, 0) \<and>
     (playerIndex s2, frameIndex s2) = (2, 0) \<and>
     (playerIndex s3, frameIndex s3) = (3, 0) \<and>
     (playerIndex s4, frameIndex s4) = (4, 0) \<and>
     runEvents firstRender threePlayers [RollEnd 0 10, RollEnd 4 6] = Inr t \<and>
     isFrameComplete 0 (framesByPlayer t ! 0 ! 0) \<and>
     (playerIndex t, frameIndex t, keepStandingPins t) = (0, 0, True)"
  by (simp add: firstRender_eval threePlayers_eval onLaneEvent_def Let_def pushRoll_def
      curFrame_def curFrames_def maxPins_def maxPinsThisRoll_def isFrameComplete_def
      rollAt_def numeral_eq_Suc)


text \<open>
  C6.  The claim is that in frames 0-8 a complete frame with legal rolls admits no
  further pins.  Evaluated on the complete open frame 3, 4 in frame 0, the legal pin
  count is 7, not 0: the branch for frames 0-8 looks at the first roll only, whereas the
  branch for frame 9 returns 0 for a closed frame; only frames closed by a strike get 0
  (\<open>strike_closes\<close>).
\<close>

theorem C6_open_frame_still_admits_pins:
  "legalRolls 0 \<lparr>rolls = [3, 4]\<rparr> \<and> isFrameComplete 0 \<lparr>rolls = [3, 4]\<rparr> \<and>
   maxPinsThisRoll 0 \<lparr>rolls = [3, 4]\<rparr> = 7"
  by (simp add: legalRolls_def isFrameComplete_def maxPinsThisRoll_def rollAt_def)

text \<open>
  C7.  An open frame a, b (first roll not 10, sum not 10) that follows closed frames is
  scored a + b whatever comes after it; in particular frame 0 holding 4, 3, followed by
  eight strike frames and a 10th frame of a strike with any two bonus rolls, scores 7.
\<close>

theorem C7_open_frame_score:
  assumes "closedFrames 0 pre" "length pre < 10" "a \<noteq> 10" "a + b \<noteq> 10"
  shows "perFrame (computeBowlingScore (pre @ \<lparr>rolls = [a, b]\<rparr> # rest)) ! length pre = a + b \<and>
         perFrame (computeBowlingScore
           (\<lparr>rolls = [4, 3]\<rparr> # replicate 8 strikeFrame @ [\<lparr>rolls = [10, b1, b2]\<rparr>])) ! 0 = 7"
proof
  from assms(2) have le: "length pre \<le> 9" by simp
  show "perFrame (computeBowlingScore (pre @ \<lparr>rolls = [a, b]\<rparr> # rest)) ! length pre = a + b"
    using compute_after_closed [OF assms(1) le, of "\<lparr>rolls = [a, b]\<rparr>" rest] assms(3,4)
    by (simp add: frameScore_at rollAt_Cons0 rollAt_ConsSuc numeral_eq_Suc)
  have "closedFrames 0 []" "length ([] :: Frame list) \<le> 9" by simp_all
  from compute_after_closed [OF this, of "\<lparr>rolls = [4, 3]\<rparr>"
      "replicate 8 strikeFrame @ [\<lparr>rolls = [10, b1, b2]\<rparr>]"]
  show "perFrame (computeBowlingScore
           (\<lparr>rolls = [4, 3]\<rparr> # replicate 8 strikeFrame @ [\<lparr>rolls = [10, b1, b2]\<rparr>])) ! 0 = 7"
    by (simp add: frameScore_def rollAt_Cons0 rollAt_ConsSuc numeral_eq_Suc)
qed

text \<open>The theorem of C7 at concrete frames.\<close>

theorem C7_witness:
  "closedFrames 0 [strikeFrame, \<lparr>rolls = [9, 1]\<rparr>] \<and>
   perFrame (computeBowlingScore
     ([strikeFrame, \<lparr>rolls = [9, 1]\<rparr>] @ \<lparr>rolls = [4, 3]\<rparr> # replicate 7 strikeFrame)) ! 2 = 7 \<and>
   perFrame (computeBowlingScore
     (\<lparr>rolls = [4, 3]\<rparr> # replicate 8 strikeFrame @ [\<lparr>rolls = [10, 10, 10]\<rparr>])) ! 0 = 7"
proof -
  have c: "closedFrames 0 [strikeFrame, \<lparr>rolls = [9, 1]\<rparr>]"
    by (simp add: closedAt_def isFrameComplete_def strikeFrame_def)
  from C7_open_frame_score [OF c, of 4 3 "replicate 7 strikeFrame" 10 10] c
  show ?thesis by (simp add: numeral_2_eq_2)
qed

text \<open>
  C8.  In a game whose frames 0-8 are closed and whose 10th frame holds 10, 7, 2, the
  10th frame scores 19, and the legal pin count for that frame with its 3 rolls is 0, so
  that no 4th roll is admitted.
\<close>

theorem C8_tenth_frame_strike:
  assumes "closedFrames 0 pre" "length pre = 9"
  shows "perFrame (computeBowlingScore (pre @ \<lparr>rolls = [10, 7, 2]\<rparr> # rest)) ! 9 = 19 \<and>
         maxPinsThisRoll 9 \<lparr>rolls = [10, 7, 2]\<rparr> = 0"
proof
  from assms(2) have le: "length pre \<le> 9" by simp
  from compute_after_closed [OF assms(1) le, of "\<lparr>rolls = [10, 7, 2]\<rparr>" rest] assms(2)
  show "perFrame (computeBowlingScore (pre @ \<lparr>rolls = [10, 7, 2]\<rparr> # rest)) ! 9 = 19"
    by (simp add: frameScore_at rollAt_Cons0 rollAt_ConsSuc numeral_eq_Suc)
  show "maxPinsThisRoll 9 \<lparr>rolls = [10, 7, 2]\<rparr> = 0"
    by (simp add: maxPinsThisRoll_def)
qed

text \<open>The theorem of C8 at concrete frames.\<close>

theorem C8_witness:
  "closedFrames 0 (replicate 9 \<lparr>rolls = [3, 4]\<rparr>) \<and>
   length (replicate 9 \<lparr>rolls = [3, 4 :: int]\<rparr>) = 9 \<and>
   perFrame (computeBowlingScore (replicate 9 \<lparr>rolls = [3, 4]\<rparr> @ [\<lparr>rolls = [10, 7, 2]\<rparr>])) ! 9 = 19 \<and>
   maxPinsThisRoll 9 \<lparr>rolls = [10, 7, 2]\<rparr> = 0"
proof -
  have c: "closedFrames 0 (replicate 9 \<lparr>rolls = [3, 4]\<rparr>)"
    by (simp add: closedAt_def isFrameComplete_def numeral_eq_Suc)
  have l: "length (replicate 9 \<lparr>rolls = [3, 4 :: int]\<rparr>) = 9"
    by simp
  from C8_tenth_frame_strike [OF c l, of "[]"] c l show ?thesis
    by simp
qed

text \<open>
  C9.  For every frame list, of any length, the per-frame sequence has exactly 10
  entries, the total is the sum of these entries, and frames beyond the first 10 do not
  change the result; the empty list scores ten zeros.
\<close>

theorem C9_ten_entries_sum:
  "length (perFrame (computeBowlingScore frames)) = 10 \<and>
   total (computeBowlingScore frames) = sum_list (perFrame (computeBowlingScore frames)) \<and>
   computeBowlingScore frames = computeBowlingScore (take 10 frames) \<and>
   computeBowlingScore [] = \<lparr>total = 0, perFrame = replicate 10 0\<rparr>"
  by (simp add: compute_length compute_total_sum compute_take)
   (simp add: computeBowlingScore_def flatten_eq scoreLoop.simps rollAt_def numeral_eq_Suc)

text \<open>
  C10.  Completion is monotone under appending: a frame that \<^verbatim>\<open>isFrameComplete\<close>
  reports complete is still reported complete after any single roll is appended, at
  every frame index.
\<close>

theorem C10_complete_monotone:
  assumes "isFrameComplete fi f"
  shows "isFrameComplete fi (f\<lparr>rolls := rolls f @ [r]\<rparr>)"
proof (cases "rolls f")
  case Nil
  with assms show ?thesis by (simp add: isFrameComplete_def split: if_splits)
next
  case (Cons a rest)
  with assms show ?thesis
    by (cases rest) (auto simp add: isFrameComplete_def rollAt_def Let_def split: if_splits)
qed

text \<open>The theorem of C10 at concrete frames.\<close>

theorem C10_witness:
  "isFrameComplete 3 \<lparr>rolls = [10]\<rparr> \<and> isFrameComplete 3 \<lparr>rolls = [10, 0]\<rparr> \<and>
   isFrameComplete 9 \<lparr>rolls = [2, 5]\<rparr> \<and> isFrameComplete 9 \<lparr>rolls = [2, 5, 4]\<rparr>"
  using C10_complete_monotone [of 3 "\<lparr>rolls = [10]\<rparr>" 0]
    C10_complete_monotone [of 9 "\<lparr>rolls = [2, 5]\<rparr>" 4]
  by (simp add: isFrameComplete_def rollAt_def)

end
